theory Spec2Isabelle
  imports Main
begin

section \<open>Exceptions\<close>

text \<open>
  The Python exceptions that the modelled code raises or lets through. \<open>VmError\<close> stands
  for whatever the Cairo runner raises when the function under test fails, and
  \<open>CompileError\<close> for a failure of the external Cairo compiler.
\<close>

datatype error =
    AssertionError
  | ValueError
  | NotImplementedError
  | ZeroDivisionError
  | TypeError
  | VmError string
  | CompileError string

text \<open>\<open>assert c\<close>, and the sequencing of two statements that may raise.\<close>

definition py_assert :: "bool \<Rightarrow> error + unit" where
  "py_assert c = (if c then Inr () else Inl AssertionError)"

fun and_then :: "error + unit \<Rightarrow> error + unit \<Rightarrow> error + unit" where
  "and_then (Inl e) _ = Inl e"
| "and_then (Inr _) r = r"

section \<open>The smart test framework (cairo_smart_test_framework.py)\<close>

subsection \<open>Test classes and the Cairo runner\<close>

text \<open>
  \<open>AbstractCairoTestClass\<close>: the data for calling a Cairo function together with the
  success and failure functions. \<open>success_function(*argument_values, *results)\<close> gets the
  arguments and the results, \<open>failure_function(*argument_values)\<close> the arguments only;
  each either returns or raises.
\<close>

record test_class =
  func_name :: string
  argument_names :: "string list"
  number_of_return_values :: nat
  builtins :: "string list"
  success_function :: "int list \<Rightarrow> int list \<Rightarrow> error + unit"
  failure_function :: "int list \<Rightarrow> error + unit"

text \<open>
  The compiled program is opaque: all that the framework sees of it is what running a
  named function on a dictionary of inputs with some builtins gives, namely the requested
  number of return values or an exception (\<open>CairoFunctionRunner.run\<close> followed by
  \<open>get_return_values\<close>).
\<close>

type_synonym program =
  "string \<Rightarrow> (string \<times> int) list \<Rightarrow> string list \<Rightarrow> nat \<Rightarrow> error + int list"

record cairo_test =
  program :: program

definition invoke_function :: "cairo_test \<Rightarrow> test_class \<Rightarrow> int list \<Rightarrow> error + int list" where
  "invoke_function self func_class argument_values =
     program self (func_name func_class)
       (zip (argument_names func_class) argument_values)
       (builtins func_class)
       (number_of_return_values func_class)"

subsection \<open>Outcomes and the accumulator\<close>

text \<open>
  The entries that \<open>CairoTest.run\<close> appends to the accumulator are tuples tagged by a
  string:
  \<^item> \<open>ExpectedFailure\<close> is \<^verbatim>\<open>("Failure (as expected)", argument_values)\<close>,
  \<^item> \<open>UnexpectedFailure\<close> is \<^verbatim>\<open>("!!!! Failure (NOT expected) !!!!", argument_values)\<close>,
  \<^item> \<open>ExpectedSuccess\<close> is \<^verbatim>\<open>("Success (as expected)", argument_values, results)\<close>,
  \<^item> \<open>UnexpectedSuccess\<close> is \<^verbatim>\<open>("!!!! Success (NOT expected) !!!!", argument_values, results)\<close>.
\<close>

datatype outcome =
    ExpectedFailure "int list"
  | UnexpectedFailure "int list"
  | ExpectedSuccess "int list" "int list"
  | UnexpectedSuccess "int list" "int list"

text \<open>
  \<open>results_accumulator\<close> is \<open>None\<close> or a list; the list is mutated in place, so the
  model returns it updated. \<^verbatim>\<open>if results_accumulator != None: results_accumulator.append(x)\<close>:
\<close>

fun accumulate :: "outcome list option \<Rightarrow> outcome \<Rightarrow> outcome list option" where
  "accumulate None x = None"
| "accumulate (Some acc) x = Some (acc @ [x])"

subsection \<open>CairoTest.run\<close>

text \<open>
  The result is what \<open>run\<close> does (return, or raise an exception) and the accumulator
  afterwards.

  In the failure branch the bare \<open>raise\<close> stands in the handler of the exception of
  \<open>failure_function\<close>, itself inside the handler of the exception of the invocation: it
  re-raises the exception being handled, which is the one of \<open>failure_function\<close>.

  In the last branch the \<open>raise\<close> is indented under
  \<^verbatim>\<open>if results_accumulator != None:\<close>, so without an accumulator the handler
  ends, the exception is swallowed and \<open>run\<close> returns.
\<close>

definition CairoTest_run ::
  "cairo_test \<Rightarrow> test_class \<Rightarrow> int list \<Rightarrow> outcome list option
     \<Rightarrow> (error + unit) \<times> outcome list option" where
  "CairoTest_run self test_class argument_values results_accumulator =
     (case invoke_function self test_class argument_values of
        Inl invocation_error \<Rightarrow>
          (case failure_function test_class argument_values of
             Inr _ \<Rightarrow>
               (Inr (), accumulate results_accumulator (ExpectedFailure argument_values))
           | Inl predicate_error \<Rightarrow>
               (Inl predicate_error,
                accumulate results_accumulator (UnexpectedFailure argument_values)))
      | Inr results \<Rightarrow>
          (case success_function test_class argument_values results of
             Inr _ \<Rightarrow>
               (Inr (),
                accumulate results_accumulator (ExpectedSuccess argument_values results))
           | Inl predicate_error \<Rightarrow>
               (case results_accumulator of
                  None \<Rightarrow> (Inr (), None)
                | Some acc \<Rightarrow>
                    (Inl predicate_error,
                     Some (acc @ [UnexpectedSuccess argument_values results])))))"

subsection \<open>SmartTest\<close>

record smart_test =
  test_object :: cairo_test
  run_tests :: bool
  LastTest :: "test_class option"
  results_accumulator :: "outcome list option"

text \<open>
  \<open>SmartTest.__init__(test_object=None, filename=None)\<close>. The compiler behind
  \<open>compile_cairo_code_from_\<close> is external; it is a parameter, which gives the compiled
  program or raises.
\<close>

fun SmartTest_init ::
  "(string \<Rightarrow> error + program) \<Rightarrow> cairo_test option \<Rightarrow> string option \<Rightarrow> error + smart_test" where
  "SmartTest_init compile_cairo_code_from (Some t) None =
     Inr \<lparr>test_object = t, run_tests = True, LastTest = None, results_accumulator = None\<rparr>"
| "SmartTest_init compile_cairo_code_from None (Some filename) =
     (case compile_cairo_code_from filename of
        Inl e \<Rightarrow> Inl e
      | Inr p \<Rightarrow>
          Inr \<lparr>test_object = \<lparr>program = p\<rparr>, run_tests = True, LastTest = None,
               results_accumulator = None\<rparr>)"
| "SmartTest_init compile_cairo_code_from _ _ = Inl ValueError"


subsection \<open>The demonstration test (test__simple_cairo_function.py)\<close>

text \<open>
  \<open>test__is_double\<close> declares the test class below. Python binds the arguments and the
  results to the parameters of the two functions; any other number of them is a
  \<open>TypeError\<close>.
\<close>

fun is_double_success_function :: "int list \<Rightarrow> int list \<Rightarrow> error + unit" where
  "is_double_success_function [a, b] [res] =
     and_then (py_assert (a < 2 ^ 5 \<and> b < 2 ^ 5))
       (py_assert ((a = 2 * b \<and> res = 1) \<or> (a \<noteq> 2 * b \<and> res = 0)))"
| "is_double_success_function _ _ = Inl TypeError"

fun is_double_failure_function :: "int list \<Rightarrow> error + unit" where
  "is_double_failure_function [a, b] = py_assert (a \<ge> 2 ^ 5 \<or> b \<ge> 2 ^ 5)"
| "is_double_failure_function _ = Inl TypeError"

definition is_double_test :: test_class where
  "is_double_test =
     \<lparr>func_name = ''is_double_uint5'', argument_names = [''a'', ''b''],
      number_of_return_values = 1, builtins = [''range_check''],
      success_function = is_double_success_function,
      failure_function = is_double_failure_function\<rparr>"

text \<open>
  Two programs to run it on: one whose function answers 1 whatever it is given (the
  demonstration's Cairo code is buggy on purpose), and one whose run always fails.
\<close>

definition always_one :: program where
  "always_one name inputs_dict bs n = Inr [1]"

definition always_fails :: program where
  "always_fails name inputs_dict bs n = Inl (VmError ''run failed'')"

definition fresh_harness :: "program \<Rightarrow> smart_test" where
  "fresh_harness p =
     \<lparr>test_object = \<lparr>program = p\<rparr>, run_tests = True, LastTest = None,
      results_accumulator = None\<rparr>"

text \<open>
  A compiler for a directory without Cairo files: whatever the file name, loading the file
  fails and the compiler raises.
\<close>

definition no_such_file :: "string \<Rightarrow> error + program" where
  "no_such_file filename = Inl (CompileError filename)"

section \<open>The fixed-width model (test_int6.py, test_int16.py)\<close>

text \<open>
  The test files of the fixed-width integers are one template instantiated at several bit
  lengths, so the constants take \<open>BIT_LENGTH\<close> as a parameter. The template computes
  \<^verbatim>\<open>SHIFT = 2 ** (BIT_LENGTH - 1)\<close>, which is an integer for a positive bit length
  only; the results below assume one.

  \<open>DEFAULT_PRIME\<close> comes from the Cairo library; its value is the one the comment of
  test_biguint.py quotes. \<open>RC_BOUND\<close> is fixed by the Cairo system.
\<close>

definition DEFAULT_PRIME :: int where
  "DEFAULT_PRIME = 2 ^ 251 + 17 * 2 ^ 192 + 1"

definition RC_BOUND :: int where
  "RC_BOUND = 2 ^ 128"

definition WORD_SIZE :: "nat \<Rightarrow> int" where
  "WORD_SIZE BIT_LENGTH = 2 ^ BIT_LENGTH"

definition SHIFT :: "nat \<Rightarrow> int" where
  "SHIFT BIT_LENGTH = 2 ^ (BIT_LENGTH - 1)"

definition MIN_VAL :: "nat \<Rightarrow> int" where
  "MIN_VAL BIT_LENGTH = - SHIFT BIT_LENGTH"

definition MAX_VAL :: "nat \<Rightarrow> int" where
  "MAX_VAL BIT_LENGTH = SHIFT BIT_LENGTH - 1"

text \<open>
  Outputs of the function under test are felts, integers from 0 up to \<open>DEFAULT_PRIME\<close>;
  \<open>felt_to_num\<close> reads a felt at or above \<open>RC_BOUND\<close> as a negative integer, and
  \<open>assert_felt_eq_num\<close> checks that a felt is an integer modulo \<open>DEFAULT_PRIME\<close>.
\<close>

definition felt_to_num :: "int \<Rightarrow> int" where
  "felt_to_num a = (if a \<ge> RC_BOUND then a - DEFAULT_PRIME else a)"

definition mod_default_prime :: "int \<Rightarrow> int" where
  "mod_default_prime a = a mod DEFAULT_PRIME"

definition assert_felt_eq_num :: "int \<Rightarrow> int \<Rightarrow> error + unit" where
  "assert_felt_eq_num a b =
     and_then (py_assert (0 \<le> a \<and> a < DEFAULT_PRIME))
       (py_assert (mod_default_prime (a - b) = 0))"

text \<open>
  The success functions of \<open>test__add\<close>, \<open>test__sub\<close> and \<open>test__div_rem\<close>: what the
  model expects of the results of the function under test, on the arguments \<open>a_in\<close> and
  \<open>b_in\<close> (in test_int16.py, \<open>a.value\<close> and \<open>b.value\<close>). The felts \<open>quotient\<close> and
  \<open>remainder\<close> of the source are \<open>quotient_felt\<close> and \<open>remainder_felt\<close> here.
\<close>

definition eq_with_overflow :: "nat \<Rightarrow> int \<Rightarrow> int \<Rightarrow> int \<Rightarrow> error + unit" where
  "eq_with_overflow BIT_LENGTH expected_num actual_felt_returned overflow_bit =
     (if expected_num > MAX_VAL BIT_LENGTH then
        and_then (assert_felt_eq_num actual_felt_returned (expected_num - WORD_SIZE BIT_LENGTH))
          (assert_felt_eq_num overflow_bit 1)
      else if expected_num < MIN_VAL BIT_LENGTH then
        and_then (assert_felt_eq_num actual_felt_returned (expected_num + WORD_SIZE BIT_LENGTH))
          (assert_felt_eq_num overflow_bit (- 1))
      else
        and_then (assert_felt_eq_num actual_felt_returned expected_num)
          (assert_felt_eq_num overflow_bit 0))"

definition add_success_function :: "nat \<Rightarrow> int \<Rightarrow> int \<Rightarrow> int \<Rightarrow> int \<Rightarrow> error + unit" where
  "add_success_function BIT_LENGTH a_in b_in res overflow =
     eq_with_overflow BIT_LENGTH (a_in + b_in) res overflow"

definition sub_success_function :: "nat \<Rightarrow> int \<Rightarrow> int \<Rightarrow> int \<Rightarrow> int \<Rightarrow> error + unit" where
  "sub_success_function BIT_LENGTH a_in b_in res overflow =
     eq_with_overflow BIT_LENGTH (a_in - b_in) res overflow"

definition div_rem_success_function ::
  "nat \<Rightarrow> int \<Rightarrow> int \<Rightarrow> int \<Rightarrow> int \<Rightarrow> error + unit" where
  "div_rem_success_function BIT_LENGTH a_in b_in quotient_felt remainder_felt =
     (let quotient_as_int = felt_to_num quotient_felt;
          remainder_as_int = felt_to_num remainder_felt
      in if b_in = 0 \<or> a_in = 0 then
           py_assert (quotient_as_int = 0 \<and> remainder_as_int = 0)
         else if b_in = - 1 \<and> a_in \<noteq> MIN_VAL BIT_LENGTH then
           py_assert (quotient_as_int = - a_in \<and> remainder_as_int = 0)
         else if b_in = - 1 \<and> a_in = MIN_VAL BIT_LENGTH then
           py_assert (quotient_as_int = a_in \<and> remainder_as_int = 0)
         else
           (let sign_of_a_in = (if 0 \<le> a_in then 1 else - 1);
                sign_of_b_in = (if 0 \<le> b_in then 1 else - 1)
            in and_then
                 (py_assert (0 \<le> sign_of_a_in * remainder_as_int
                             \<and> sign_of_a_in * remainder_as_int < sign_of_b_in * b_in))
                 (py_assert (a_in = b_in * quotient_as_int + remainder_as_int))))"

section \<open>The unbounded-precision model (test_biguint.py, test_bigint.py)\<close>

subsection \<open>biguint_tools\<close>

text \<open>
  The two test files import their constants and the functions \<open>add_eon\<close>, \<open>strip_eon\<close>,
  \<open>int_to_num\<close>, \<open>num_to_int\<close>, \<open>is_num\<close>, \<open>num_sub\<close> and \<open>int_to_sign_and_abs\<close> from the
  module biguint_tools.py, which is not among the sources. This subsection models them.
\<close>

text \<open>
  Modelled from the spec: the end-of-number marker \<open>EON\<close> of biguint_tools.py, the
  sentinel that terminates a digit sequence. The comment on its import gives its value.
\<close>

definition EON :: int where
  "EON = - 1"

text \<open>
  Modelled from the spec: the radix \<open>SHIFT\<close> of biguint_tools.py, 2 to the power of the
  digit width; the comment on its import says \<^verbatim>\<open>2 ** BIT_LENGTH\<close>, with \<open>BIT_LENGTH\<close>
  from 4 to 125. The fixed-width files have a different \<open>SHIFT\<close>, whence the name.
\<close>

definition biguint_SHIFT :: "nat \<Rightarrow> int" where
  "biguint_SHIFT BIT_LENGTH = 2 ^ BIT_LENGTH"

text \<open>
  Modelled from the spec: \<open>add_eon\<close> of biguint_tools.py. A number is a sequence of
  digits, least significant first, terminated by the sentinel; \<open>add_eon\<close> appends it.
\<close>

definition add_eon :: "int list \<Rightarrow> int list" where
  "add_eon l = l @ [EON]"

text \<open>
  Modelled from the spec: \<open>strip_eon\<close> of biguint_tools.py, the digits before the
  sentinel.
\<close>

definition strip_eon :: "int list \<Rightarrow> int list" where
  "strip_eon a = takeWhile (\<lambda>x. x \<noteq> EON) a"

text \<open>
  Modelled from the spec: the decomposition of \<open>n \<ge> 0\<close> into digits in base \<open>SHIFT\<close>,
  least significant first, the first step of \<open>int_to_num\<close> of biguint_tools.py. A radix
  of 1 (\<open>BIT_LENGTH = 0\<close>) is outside the range of bit lengths; the decomposition stops
  there at once, so that it is total.
\<close>

function int_to_digits :: "nat \<Rightarrow> int \<Rightarrow> int list" where
  "int_to_digits BIT_LENGTH n =
     (if n \<le> 0 \<or> BIT_LENGTH = 0 then []
      else (n mod biguint_SHIFT BIT_LENGTH)
             # int_to_digits BIT_LENGTH (n div biguint_SHIFT BIT_LENGTH))"
  by pat_completeness auto
termination
proof (relation "measure (\<lambda>(BIT_LENGTH, n). nat n)")
  show "wf (measure (\<lambda>(BIT_LENGTH, n). nat n))"
    by simp
next
  fix BIT_LENGTH :: nat and n :: int
  assume "\<not> (n \<le> 0 \<or> BIT_LENGTH = 0)"
  then have n: "0 < n" and "0 < BIT_LENGTH"
    by simp_all
  then have "(2::int) \<le> 2 ^ BIT_LENGTH"
    by (cases BIT_LENGTH) simp_all
  then have "1 < biguint_SHIFT BIT_LENGTH"
    by (simp add: biguint_SHIFT_def)
  with n have "n div biguint_SHIFT BIT_LENGTH < n"
    by (rule int_div_less_self)
  moreover from n have "0 \<le> n div biguint_SHIFT BIT_LENGTH"
    by (simp add: biguint_SHIFT_def pos_imp_zdiv_nonneg_iff)
  ultimately show "((BIT_LENGTH, n div biguint_SHIFT BIT_LENGTH), (BIT_LENGTH, n))
      \<in> measure (\<lambda>(BIT_LENGTH, n). nat n)"
    using n by simp
qed

declare int_to_digits.simps [simp del]

text \<open>
  Modelled from the spec: the canonicalization step of \<open>int_to_num\<close> of biguint_tools.py,
  which drops the trailing (most significant) zero digits.
\<close>

definition strip_trailing_zeros :: "int list \<Rightarrow> int list" where
  "strip_trailing_zeros ds = rev (dropWhile (\<lambda>d. d = 0) (rev ds))"

text \<open>
  Modelled from the spec: \<open>int_to_num\<close> of biguint_tools.py, for \<open>n \<ge> 0\<close> the digits of
  \<open>n\<close> without trailing zero digits, then the sentinel. Zero is the empty digit sequence.
\<close>

definition int_to_num :: "nat \<Rightarrow> int \<Rightarrow> int list" where
  "int_to_num BIT_LENGTH n = add_eon (strip_trailing_zeros (int_to_digits BIT_LENGTH n))"

text \<open>
  Modelled from the spec: the sum of \<open>digit * R ^ i\<close> over a digit sequence whose first
  digit has the index \<open>i\<close>, by which \<open>num_to_int\<close> of biguint_tools.py reassembles a
  number.
\<close>

fun digits_value :: "int \<Rightarrow> nat \<Rightarrow> int list \<Rightarrow> int" where
  "digits_value R i [] = 0"
| "digits_value R i (d # ds) = d * R ^ i + digits_value R (Suc i) ds"

text \<open>
  Modelled from the spec: \<open>num_to_int\<close> of biguint_tools.py, that sum over the digits
  before the sentinel, the first of them having the index 0.
\<close>

definition num_to_int :: "nat \<Rightarrow> int list \<Rightarrow> int" where
  "num_to_int BIT_LENGTH a = digits_value (biguint_SHIFT BIT_LENGTH) 0 (strip_eon a)"

text \<open>
  Modelled from the spec: \<open>is_num\<close> of biguint_tools.py, the canonical form. The sequence
  ends with the sentinel, each digit before it is from 0 to \<open>SHIFT - 1\<close>, and the digit
  just before the sentinel, if there is one, is not zero.
\<close>

definition is_num :: "nat \<Rightarrow> int list \<Rightarrow> bool" where
  "is_num BIT_LENGTH a \<longleftrightarrow>
     a \<noteq> [] \<and> last a = EON
     \<and> list_all (\<lambda>d. 0 \<le> d \<and> d < biguint_SHIFT BIT_LENGTH) (butlast a)
     \<and> (butlast a = [] \<or> last (butlast a) \<noteq> 0)"

text \<open>
  Modelled from the spec: one digit of the schoolbook subtraction of \<open>num_sub\<close> of
  biguint_tools.py. The digit of the difference and the borrow passed on, from the two
  digits and the borrow that comes in.
\<close>

definition sub_digit :: "int \<Rightarrow> int \<Rightarrow> int \<Rightarrow> int \<Rightarrow> int \<times> int" where
  "sub_digit R x y borrow =
     (let d = x - y - borrow in if d < 0 then (d + R, 1) else (d, 0))"

text \<open>
  Modelled from the spec: the borrow propagation of \<open>num_sub\<close> of biguint_tools.py, digit
  by digit from the least significant one, the shorter operand continued with zeros. The
  result is the digits of the difference and the borrow out of the last digit.
\<close>

fun sub_with_borrow :: "int \<Rightarrow> int list \<Rightarrow> int list \<Rightarrow> int \<Rightarrow> int list \<times> int" where
  "sub_with_borrow R [] [] borrow = ([], borrow)"
| "sub_with_borrow R (x # xs) [] borrow =
     (case sub_digit R x 0 borrow of
        (d, borrow') \<Rightarrow>
          (case sub_with_borrow R xs [] borrow' of (ds, out) \<Rightarrow> (d # ds, out)))"
| "sub_with_borrow R [] (y # ys) borrow =
     (case sub_digit R 0 y borrow of
        (d, borrow') \<Rightarrow>
          (case sub_with_borrow R [] ys borrow' of (ds, out) \<Rightarrow> (d # ds, out)))"
| "sub_with_borrow R (x # xs) (y # ys) borrow =
     (case sub_digit R x y borrow of
        (d, borrow') \<Rightarrow>
          (case sub_with_borrow R xs ys borrow' of (ds, out) \<Rightarrow> (d # ds, out)))"

text \<open>
  Modelled from the spec: \<open>num_sub\<close> of biguint_tools.py, the subtraction of magnitudes,
  whose result is a sign and a magnitude. A borrow out of the last digit means that the
  second operand is the larger: the operands are then subtracted the other way round and
  the sign is -1. The magnitude is made canonical.
\<close>

definition num_sub :: "nat \<Rightarrow> int list \<Rightarrow> int list \<Rightarrow> int \<times> int list" where
  "num_sub BIT_LENGTH a b =
     (let R = biguint_SHIFT BIT_LENGTH; xs = strip_eon a; ys = strip_eon b
      in case sub_with_borrow R xs ys 0 of
           (ds, borrow) \<Rightarrow>
             if borrow = 0 then (1, add_eon (strip_trailing_zeros ds))
             else (- 1, add_eon (strip_trailing_zeros (fst (sub_with_borrow R ys xs 0)))))"

subsection \<open>test_biguint.py\<close>

text \<open>
  A \<open>BigUint\<close> is the Cairo struct around a number; \<open>biguint_to_num\<close> takes its \<open>ptr\<close>.
  \<open>biguint_to_int\<close> and \<open>is_biguint\<close> are \<open>biguint_to_num\<close> followed by \<open>num_to_int\<close> and
  by \<open>is_num\<close>.
\<close>

datatype biguint = BigUint "int list"

fun biguint_to_num :: "biguint \<Rightarrow> int list" where
  "biguint_to_num (BigUint p) = p"

definition biguint_to_int :: "nat \<Rightarrow> biguint \<Rightarrow> int" where
  "biguint_to_int BIT_LENGTH a = num_to_int BIT_LENGTH (biguint_to_num a)"

definition is_biguint :: "nat \<Rightarrow> biguint \<Rightarrow> bool" where
  "is_biguint BIT_LENGTH a = is_num BIT_LENGTH (biguint_to_num a)"

text \<open>\<open>test__utility_sub\<close>, the test of \<open>num_sub\<close>.\<close>

definition test__utility_sub :: "nat \<Rightarrow> biguint \<times> biguint \<Rightarrow> error + unit" where
  "test__utility_sub BIT_LENGTH a_biguint_pair =
     (case a_biguint_pair of
        (a, b) \<Rightarrow>
          (let a_num = biguint_to_num a; b_num = biguint_to_num b
           in case num_sub BIT_LENGTH a_num b_num of
                (res_sign, res_num) \<Rightarrow>
                  (let a_int = num_to_int BIT_LENGTH a_num;
                       b_int = num_to_int BIT_LENGTH b_num;
                       res_int = num_to_int BIT_LENGTH res_num
                   in if a_int \<ge> b_int
                      then py_assert ((res_sign, res_int) = (1, a_int - b_int))
                      else py_assert ((res_sign, res_int) = (- 1, b_int - a_int)))))"

text \<open>
  The success function of \<open>test__div\<close>. \<open>divmod\<close> raises on a zero divisor; otherwise it
  is the floor division of Python, which is that of HOL. The integers \<open>quotient\<close> and
  \<open>remainder\<close> of the source are \<open>quotient_int\<close> and \<open>remainder_int\<close> here.
\<close>

definition py_divmod :: "int \<Rightarrow> int \<Rightarrow> error + int \<times> int" where
  "py_divmod a b = (if b = 0 then Inl ZeroDivisionError else Inr (a div b, a mod b))"

definition div_success_function ::
  "nat \<Rightarrow> biguint \<Rightarrow> biguint \<Rightarrow> biguint \<Rightarrow> biguint \<Rightarrow> error + unit" where
  "div_success_function BIT_LENGTH a_in b_in quotient_out remainder_out =
     (let a = biguint_to_int BIT_LENGTH a_in;
          b = biguint_to_int BIT_LENGTH b_in;
          quotient_int = biguint_to_int BIT_LENGTH quotient_out;
          remainder_int = biguint_to_int BIT_LENGTH remainder_out
      in if a = 0 \<or> b = 0 then py_assert ((quotient_int, remainder_int) = (0, 0))
         else (case py_divmod a b of
                 Inl e \<Rightarrow> Inl e
               | Inr qr \<Rightarrow> py_assert ((quotient_int, remainder_int) = qr)))"

subsection \<open>test_bigint.py\<close>

text \<open>\<open>int_to_signed_abs\<close> is defined in test_biguint.py.\<close>

definition int_to_signed_abs :: "int \<Rightarrow> int \<times> int" where
  "int_to_signed_abs a = (if a \<ge> 0 then (1, a) else (- 1, - a))"

text \<open>
  Modelled from the spec: \<open>int_to_sign_and_abs\<close> of biguint_tools.py, which test_bigint.py
  uses where test_biguint.py uses \<open>int_to_signed_abs\<close>. It is taken to be the same
  function, as the round trip of the spec requires, where zero comes back with the sign
  +1.
\<close>

definition int_to_sign_and_abs :: "int \<Rightarrow> int \<times> int" where
  "int_to_sign_and_abs a = int_to_signed_abs a"

record BigInt =
  sign :: int
  ptr :: "int list"

definition is_bigint :: "nat \<Rightarrow> BigInt \<Rightarrow> bool" where
  "is_bigint BIT_LENGTH a \<longleftrightarrow> (sign a = - 1 \<or> sign a = 1) \<and> is_num BIT_LENGTH (ptr a)"

definition int_to_bigint :: "nat \<Rightarrow> int \<Rightarrow> BigInt" where
  "int_to_bigint BIT_LENGTH a =
     (case int_to_sign_and_abs a of
        (a_sign, a_abs) \<Rightarrow> \<lparr>sign = a_sign, ptr = int_to_num BIT_LENGTH a_abs\<rparr>)"

definition bigint_to_int :: "nat \<Rightarrow> BigInt \<Rightarrow> int" where
  "bigint_to_int BIT_LENGTH a =
     (let a_sign = sign a; a_abs = ptr a in a_sign * num_to_int BIT_LENGTH a_abs)"

section \<open>The classifier: results\<close>

lemma invoke_always_one [simp]:
  "invoke_function \<lparr>program = always_one\<rparr> tc args = Inr [1]"
  by (simp add: invoke_function_def always_one_def)

lemma invoke_always_fails [simp]:
  "invoke_function \<lparr>program = always_fails\<rparr> tc args = Inl (VmError ''run failed'')"
  by (simp add: invoke_function_def always_fails_def)

lemma is_double_rejects_success_3_5 [simp]:
  "success_function is_double_test [3, 5] [1] = Inl AssertionError"
  by (simp add: is_double_test_def py_assert_def)

lemma is_double_rejects_failure_3_5 [simp]:
  "failure_function is_double_test [3, 5] = Inl AssertionError"
  by (simp add: is_double_test_def py_assert_def)

text \<open>
  With an accumulator attached the four cells of the matrix are as the comments of
  \<open>CairoTest.run\<close> describe them: the outcome is appended, the two cells where the
  predicate accepts return, the two where it raises raise.
\<close>

lemma CairoTest_run_accumulating:
  "CairoTest_run self tc args (Some acc) =
     (case invoke_function self tc args of
        Inl e \<Rightarrow>
          (case failure_function tc args of
             Inr _ \<Rightarrow> (Inr (), Some (acc @ [ExpectedFailure args]))
           | Inl e' \<Rightarrow> (Inl e', Some (acc @ [UnexpectedFailure args])))
      | Inr results \<Rightarrow>
          (case success_function tc args results of
             Inr _ \<Rightarrow> (Inr (), Some (acc @ [ExpectedSuccess args results]))
           | Inl e' \<Rightarrow> (Inl e', Some (acc @ [UnexpectedSuccess args results]))))"
  by (simp add: CairoTest_run_def split: sum.splits)

text \<open>
  C1. The claim: each of the four combinations of invocation raised or succeeded and
  predicate accepts or raises is routed to its outcome, and the two combinations where the
  predicate raises propagate an exception out of \<open>run\<close>, whether or not an accumulator is
  attached. The code does not do this: when the invocation succeeds, the success function
  raises and no accumulator is attached, \<open>run\<close> returns normally. Here the function
  answered 1 on the arguments 3 and 5, the success function of \<open>test__is_double\<close> raised
  \<open>AssertionError\<close>, and \<open>run\<close> returned.
\<close>

theorem C1_unexpected_success_swallowed_without_accumulator:
  "invoke_function \<lparr>program = always_one\<rparr> is_double_test [3, 5] = Inr [1]
   \<and> success_function is_double_test [3, 5] [1] = Inl AssertionError
   \<and> CairoTest_run \<lparr>program = always_one\<rparr> is_double_test [3, 5] None = (Inr (), None)"
  by (simp add: CairoTest_run_def)

text \<open>
  C2. The claim: attaching an accumulator does not change whether \<open>run\<close> returns or
  raises, and with a list attached every outcome appends exactly one entry. The second
  half holds (lemma \<open>CairoTest_run_accumulating\<close>); the first does not: on the same call
  \<open>run\<close> returns without an accumulator and raises with the empty list attached.
\<close>

theorem C2_accumulator_changes_control_flow:
  "fst (CairoTest_run \<lparr>program = always_one\<rparr> is_double_test [3, 5] None) = Inr ()
   \<and> CairoTest_run \<lparr>program = always_one\<rparr> is_double_test [3, 5] (Some []) =
       (Inl AssertionError, Some [UnexpectedSuccess [3, 5] [1]])"
  by (simp add: CairoTest_run_def)

text \<open>
  C3, as amended. When the invocation raises and the failure function raises too, \<open>run\<close>
  records an unexpected failure (if an accumulator is attached) and raises the exception
  of the failure function: the bare \<open>raise\<close> stands in the handler of that exception.
\<close>

theorem C3_predicate_exception_is_raised:
  assumes "invoke_function self tc args = Inl invocation_error"
    and "failure_function tc args = Inl predicate_error"
  shows "CairoTest_run self tc args acc =
           (Inl predicate_error, accumulate acc (UnexpectedFailure args))"
  using assms by (simp add: CairoTest_run_def)

theorem C3_predicate_exception_is_raised_witness:
  "invoke_function \<lparr>program = always_fails\<rparr> is_double_test [3, 5] = Inl (VmError ''run failed'')
   \<and> failure_function is_double_test [3, 5] = Inl AssertionError
   \<and> CairoTest_run \<lparr>program = always_fails\<rparr> is_double_test [3, 5] (Some []) =
       (Inl AssertionError, Some [UnexpectedFailure [3, 5]])"
  using C3_predicate_exception_is_raised
    [of "\<lparr>program = always_fails\<rparr>" is_double_test "[3, 5]" "VmError ''run failed''"
        AssertionError "Some []"]
  by simp

text \<open>
  C3, as stated, fails: the run of the function raised \<open>VmError\<close>, the failure function
  raised \<open>AssertionError\<close>, and what \<open>run\<close> raises is not the \<open>VmError\<close>.
\<close>

theorem C3_original_exception_not_raised:
  "invoke_function \<lparr>program = always_fails\<rparr> is_double_test [3, 5] = Inl (VmError ''run failed'')
   \<and> failure_function is_double_test [3, 5] = Inl AssertionError
   \<and> fst (CairoTest_run \<lparr>program = always_fails\<rparr> is_double_test [3, 5] None)
       \<noteq> Inl (VmError ''run failed'')"
  by (simp add: CairoTest_run_def)




text \<open>
  C10, as amended. \<open>SmartTest.__init__\<close> wants exactly one of \<open>test_object\<close> and
  \<open>filename\<close>. Given the test object alone it builds a harness around it. Given the file
  name alone it compiles the file: when the compiler returns a program it builds a
  harness around that program, and when the compiler raises, its exception leaves
  \<open>__init__\<close> and there is no harness. A harness that is built has \<open>run_tests\<close> set, no
  last test and no accumulator. Given both or neither it raises \<open>ValueError\<close>, and there
  is no harness.
\<close>

theorem C10_SmartTest_init_exactly_one:
  "SmartTest_init compile (Some t) None =
     Inr \<lparr>test_object = t, run_tests = True, LastTest = None, results_accumulator = None\<rparr>
   \<and> (compile filename = Inr p \<longrightarrow>
        SmartTest_init compile None (Some filename) =
          Inr \<lparr>test_object = \<lparr>program = p\<rparr>, run_tests = True, LastTest = None,
               results_accumulator = None\<rparr>)
   \<and> (compile filename = Inl e \<longrightarrow>
        SmartTest_init compile None (Some filename) = Inl e)
   \<and> SmartTest_init compile (Some t) (Some filename) = Inl ValueError
   \<and> SmartTest_init compile None None = Inl ValueError"
  by simp

theorem C10_SmartTest_init_exactly_one_witness:
  "SmartTest_init (\<lambda>f. Inr always_one) (Some \<lparr>program = always_fails\<rparr>) None =
     Inr (fresh_harness always_fails)
   \<and> (\<lambda>f. Inr always_one) ''simple_cairo_function.cairo'' = Inr always_one
   \<and> SmartTest_init (\<lambda>f. Inr always_one) None (Some ''simple_cairo_function.cairo'') =
       Inr (fresh_harness always_one)
   \<and> SmartTest_init (\<lambda>f. Inr always_one) (Some \<lparr>program = always_fails\<rparr>)
       (Some ''simple_cairo_function.cairo'') = Inl ValueError
   \<and> SmartTest_init (\<lambda>f. Inr always_one) None None = Inl ValueError
   \<and> no_such_file ''does_not_exist.cairo'' = Inl (CompileError ''does_not_exist.cairo'')
   \<and> SmartTest_init no_such_file None (Some ''does_not_exist.cairo'') =
       Inl (CompileError ''does_not_exist.cairo'')"
  using C10_SmartTest_init_exactly_one
    [of "\<lambda>f. Inr always_one" "\<lparr>program = always_fails\<rparr>" "''simple_cairo_function.cairo''"
        always_one]
    C10_SmartTest_init_exactly_one
    [of no_such_file _ "''does_not_exist.cairo''" _ "CompileError ''does_not_exist.cairo''"]
  by (simp add: fresh_harness_def no_such_file_def)

text \<open>
  C10, as stated, fails: the file name alone is given, the file does not exist, the
  compiler raises, and what \<open>__init__\<close> gives is that exception, not a harness.
\<close>

theorem C10_no_harness_when_compiler_raises:
  "no_such_file ''does_not_exist.cairo'' = Inl (CompileError ''does_not_exist.cairo'')
   \<and> SmartTest_init no_such_file None (Some ''does_not_exist.cairo'') =
       Inl (CompileError ''does_not_exist.cairo'')
   \<and> isl (SmartTest_init no_such_file None (Some ''does_not_exist.cairo''))"
  by (simp add: no_such_file_def)

section \<open>The fixed-width model: results\<close>

lemma py_assert_ok [simp]: "py_assert c = Inr () \<longleftrightarrow> c"
  by (simp add: py_assert_def)

lemma and_then_ok [simp]: "and_then x y = Inr () \<longleftrightarrow> x = Inr () \<and> y = Inr ()"
  by (cases x) auto

lemma DEFAULT_PRIME_pos: "0 < DEFAULT_PRIME"
  by (simp add: DEFAULT_PRIME_def)


lemma assert_felt_eq_num_ok:
  "assert_felt_eq_num a b = Inr () \<longleftrightarrow> a = mod_default_prime b"
proof -
  have eq: "(a - b) mod DEFAULT_PRIME = 0 \<longleftrightarrow> a mod DEFAULT_PRIME = b mod DEFAULT_PRIME"
    by (simp add: mod_eq_dvd_iff mod_eq_0_iff_dvd)
  have rng: "0 \<le> b mod DEFAULT_PRIME \<and> b mod DEFAULT_PRIME < DEFAULT_PRIME"
    using DEFAULT_PRIME_pos by simp
  show ?thesis
  proof
    assume "assert_felt_eq_num a b = Inr ()"
    then have a: "0 \<le> a" "a < DEFAULT_PRIME" "(a - b) mod DEFAULT_PRIME = 0"
      by (simp_all add: assert_felt_eq_num_def mod_default_prime_def)
    from a(1,2) have "a mod DEFAULT_PRIME = a" by simp
    with a(3) eq show "a = mod_default_prime b"
      by (simp add: mod_default_prime_def)
  next
    assume "a = mod_default_prime b"
    then have a: "a = b mod DEFAULT_PRIME" by (simp add: mod_default_prime_def)
    with rng have "0 \<le> a \<and> a < DEFAULT_PRIME" by simp
    moreover from a have "a mod DEFAULT_PRIME = b mod DEFAULT_PRIME" by simp
    ultimately show "assert_felt_eq_num a b = Inr ()"
      using eq by (simp add: assert_felt_eq_num_def mod_default_prime_def)
  qed
qed

lemma WORD_SIZE_SHIFT: "0 < W \<Longrightarrow> WORD_SIZE W = 2 * SHIFT W"
  by (cases W) (simp_all add: WORD_SIZE_def SHIFT_def)

text \<open>
  C5. For a positive bit length and all operands, \<open>test__add\<close> (respectively
  \<open>test__sub\<close>) accepts exactly one pair of results: with \<open>v\<close> the exact sum (respectively
  difference), the felts of \<open>v - WORD_SIZE\<close> and 1 if \<open>v > MAX_VAL\<close>, of \<open>v + WORD_SIZE\<close> and
  -1 if \<open>v < MIN_VAL\<close>, and of \<open>v\<close> and 0 otherwise. In particular the sum of \<open>MAX_VAL\<close> and 1
  is expected to be \<open>MIN_VAL\<close> with the flag 1.
\<close>

theorem C5_signed_add_sub_expected:
  assumes "0 < W"
  shows "(add_success_function W a b res overflow = Inr () \<longleftrightarrow>
            (res, overflow) =
              (let v = a + b in
               if v > MAX_VAL W then (mod_default_prime (v - WORD_SIZE W), mod_default_prime 1)
               else if v < MIN_VAL W then (mod_default_prime (v + WORD_SIZE W), mod_default_prime (- 1))
               else (mod_default_prime v, mod_default_prime 0)))
       \<and> (sub_success_function W a b res overflow = Inr () \<longleftrightarrow>
            (res, overflow) =
              (let v = a - b in
               if v > MAX_VAL W then (mod_default_prime (v - WORD_SIZE W), mod_default_prime 1)
               else if v < MIN_VAL W then (mod_default_prime (v + WORD_SIZE W), mod_default_prime (- 1))
               else (mod_default_prime v, mod_default_prime 0)))
       \<and> (add_success_function W (MAX_VAL W) 1 res overflow = Inr () \<longleftrightarrow>
            res = mod_default_prime (MIN_VAL W) \<and> overflow = 1)"
proof (intro conjI)
  show "add_success_function W a b res overflow = Inr () \<longleftrightarrow>
            (res, overflow) =
              (let v = a + b in
               if v > MAX_VAL W then (mod_default_prime (v - WORD_SIZE W), mod_default_prime 1)
               else if v < MIN_VAL W then (mod_default_prime (v + WORD_SIZE W), mod_default_prime (- 1))
               else (mod_default_prime v, mod_default_prime 0))"
    by (simp add: add_success_function_def eq_with_overflow_def assert_felt_eq_num_ok Let_def)
  show "sub_success_function W a b res overflow = Inr () \<longleftrightarrow>
            (res, overflow) =
              (let v = a - b in
               if v > MAX_VAL W then (mod_default_prime (v - WORD_SIZE W), mod_default_prime 1)
               else if v < MIN_VAL W then (mod_default_prime (v + WORD_SIZE W), mod_default_prime (- 1))
               else (mod_default_prime v, mod_default_prime 0))"
    by (simp add: sub_success_function_def eq_with_overflow_def assert_felt_eq_num_ok Let_def)
  have "MAX_VAL W + 1 - WORD_SIZE W = MIN_VAL W"
    using WORD_SIZE_SHIFT [OF assms] by (simp add: MAX_VAL_def MIN_VAL_def)
  moreover have "mod_default_prime 1 = 1"
    by (simp add: mod_default_prime_def DEFAULT_PRIME_def)
  ultimately show "add_success_function W (MAX_VAL W) 1 res overflow = Inr () \<longleftrightarrow>
            res = mod_default_prime (MIN_VAL W) \<and> overflow = 1"
    by (simp add: add_success_function_def eq_with_overflow_def assert_felt_eq_num_ok)
qed

theorem C5_signed_add_sub_expected_witness:
  "(0::nat) < 16
   \<and> add_success_function 16 32767 1 (DEFAULT_PRIME - 32768) 1 = Inr ()
   \<and> add_success_function 16 (- 32768) (- 1) 32767 (DEFAULT_PRIME - 1) = Inr ()
   \<and> sub_success_function 16 5 7 (DEFAULT_PRIME - 2) 0 = Inr ()"
  using C5_signed_add_sub_expected [of 16 32767 1 "DEFAULT_PRIME - 32768" 1]
    C5_signed_add_sub_expected [of 16 "- 32768" "- 1" 32767 "DEFAULT_PRIME - 1"]
    C5_signed_add_sub_expected [of 16 5 7 "DEFAULT_PRIME - 2" 0]
  by (simp add: MAX_VAL_def MIN_VAL_def SHIFT_def WORD_SIZE_def mod_default_prime_def
      DEFAULT_PRIME_def)

text \<open>
  C4. \<open>test__div_rem\<close> accepts a quotient \<open>q\<close> and a remainder \<open>r\<close> (read through
  \<open>felt_to_num\<close>) exactly when: both are 0, if the divisor or the dividend is 0; \<open>q = - a\<close>
  and \<open>r = 0\<close>, if the divisor is -1 and \<open>a\<close> is not \<open>MIN_VAL\<close>; \<open>q = a\<close> and \<open>r = 0\<close>, if
  the divisor is -1 and \<open>a\<close> is \<open>MIN_VAL\<close>; and otherwise \<open>a = b * q + r\<close> with
  \<open>0 \<le> sgn a * r < sgn b * b\<close>. At the bit length 6 the only results accepted for 7 and 2
  are 3 and 1, for 7 and -2 they are -3 and 1, for -7 and 2 they are -3 and -1, and for
  -7 and -2 they are 3 and -1.
\<close>

theorem C4_div_rem_expected:
  "(div_rem_success_function W a b quotient_felt remainder_felt = Inr () \<longleftrightarrow>
      (let q = felt_to_num quotient_felt; r = felt_to_num remainder_felt in
       if b = 0 \<or> a = 0 then q = 0 \<and> r = 0
       else if b = - 1 \<and> a \<noteq> MIN_VAL W then q = - a \<and> r = 0
       else if b = - 1 \<and> a = MIN_VAL W then q = a \<and> r = 0
       else a = b * q + r \<and> 0 \<le> sgn a * r \<and> sgn a * r < sgn b * b))
   \<and> (div_rem_success_function 6 7 2 quotient_felt remainder_felt = Inr () \<longleftrightarrow>
        felt_to_num quotient_felt = 3 \<and> felt_to_num remainder_felt = 1)
   \<and> (div_rem_success_function 6 7 (- 2) quotient_felt remainder_felt = Inr () \<longleftrightarrow>
        felt_to_num quotient_felt = - 3 \<and> felt_to_num remainder_felt = 1)
   \<and> (div_rem_success_function 6 (- 7) 2 quotient_felt remainder_felt = Inr () \<longleftrightarrow>
        felt_to_num quotient_felt = - 3 \<and> felt_to_num remainder_felt = - 1)
   \<and> (div_rem_success_function 6 (- 7) (- 2) quotient_felt remainder_felt = Inr () \<longleftrightarrow>
        felt_to_num quotient_felt = 3 \<and> felt_to_num remainder_felt = - 1)"
proof (intro conjI)
  show "div_rem_success_function W a b quotient_felt remainder_felt = Inr () \<longleftrightarrow>
      (let q = felt_to_num quotient_felt; r = felt_to_num remainder_felt in
       if b = 0 \<or> a = 0 then q = 0 \<and> r = 0
       else if b = - 1 \<and> a \<noteq> MIN_VAL W then q = - a \<and> r = 0
       else if b = - 1 \<and> a = MIN_VAL W then q = a \<and> r = 0
       else a = b * q + r \<and> 0 \<le> sgn a * r \<and> sgn a * r < sgn b * b)"
    by (auto simp: div_rem_success_function_def Let_def sgn_if)
  show "div_rem_success_function 6 7 2 quotient_felt remainder_felt = Inr () \<longleftrightarrow>
        felt_to_num quotient_felt = 3 \<and> felt_to_num remainder_felt = 1"
    by (simp add: div_rem_success_function_def Let_def MIN_VAL_def SHIFT_def) presburger
  show "div_rem_success_function 6 7 (- 2) quotient_felt remainder_felt = Inr () \<longleftrightarrow>
        felt_to_num quotient_felt = - 3 \<and> felt_to_num remainder_felt = 1"
    by (simp add: div_rem_success_function_def Let_def MIN_VAL_def SHIFT_def) presburger
  show "div_rem_success_function 6 (- 7) 2 quotient_felt remainder_felt = Inr () \<longleftrightarrow>
        felt_to_num quotient_felt = - 3 \<and> felt_to_num remainder_felt = - 1"
    by (simp add: div_rem_success_function_def Let_def MIN_VAL_def SHIFT_def) presburger
  show "div_rem_success_function 6 (- 7) (- 2) quotient_felt remainder_felt = Inr () \<longleftrightarrow>
        felt_to_num quotient_felt = 3 \<and> felt_to_num remainder_felt = - 1"
    by (simp add: div_rem_success_function_def Let_def MIN_VAL_def SHIFT_def) presburger
qed

theorem C4_div_rem_expected_witness:
  "div_rem_success_function 6 7 (- 2) (DEFAULT_PRIME - 3) 1 = Inr ()
   \<and> div_rem_success_function 6 (- 7) 2 (DEFAULT_PRIME - 3) (DEFAULT_PRIME - 1) = Inr ()
   \<and> div_rem_success_function 6 (- 32) (- 1) (DEFAULT_PRIME - 32) 0 = Inr ()
   \<and> div_rem_success_function 6 5 (- 1) (DEFAULT_PRIME - 5) 0 = Inr ()
   \<and> div_rem_success_function 6 5 0 0 0 = Inr ()"
  using C4_div_rem_expected [of 6 7 "- 2" "DEFAULT_PRIME - 3" 1]
    C4_div_rem_expected [of 6 "- 7" 2 "DEFAULT_PRIME - 3" "DEFAULT_PRIME - 1"]
    C4_div_rem_expected [of 6 "- 32" "- 1" "DEFAULT_PRIME - 32" 0]
    C4_div_rem_expected [of 6 5 "- 1" "DEFAULT_PRIME - 5" 0]
    C4_div_rem_expected [of 6 5 0 0 0]
  by (simp add: felt_to_num_def RC_BOUND_def DEFAULT_PRIME_def MIN_VAL_def SHIFT_def)

section \<open>The unbounded-precision model: results\<close>

subsection \<open>Digits and values\<close>

lemma biguint_SHIFT_pos: "0 < biguint_SHIFT D"
  by (simp add: biguint_SHIFT_def)

lemma biguint_SHIFT_gt1: "0 < D \<Longrightarrow> 1 < biguint_SHIFT D"
proof -
  assume "0 < D"
  then have "(2::int) \<le> 2 ^ D"
    by (cases D) simp_all
  then show ?thesis
    by (simp add: biguint_SHIFT_def)
qed

lemma digits_value_Suc: "digits_value R (Suc i) ds = R * digits_value R i ds"
  by (induction ds arbitrary: i) (simp_all add: algebra_simps)

lemma digits_value_Cons: "digits_value R 0 (d # ds) = d + R * digits_value R 0 ds"
  by (simp add: digits_value_Suc)

lemma digits_value_append:
  "digits_value R i (xs @ ys) = digits_value R i xs + digits_value R (i + length xs) ys"
  by (induction xs arbitrary: i) simp_all

lemma digits_value_zeros: "\<forall>d\<in>set ds. d = 0 \<Longrightarrow> digits_value R i ds = 0"
  by (induction ds arbitrary: i) simp_all

lemma digits_value_nonneg:
  "0 \<le> R \<Longrightarrow> \<forall>d\<in>set ds. 0 \<le> d \<Longrightarrow> 0 \<le> digits_value R i ds"
  by (induction ds arbitrary: i) simp_all

lemma strip_trailing_zeros_decomp:
  "ds = strip_trailing_zeros ds @ rev (takeWhile (\<lambda>d. d = 0) (rev ds))"
proof -
  have "rev (takeWhile (\<lambda>d. d = 0) (rev ds) @ dropWhile (\<lambda>d. d = 0) (rev ds)) = ds"
    by (simp only: takeWhile_dropWhile_id rev_rev_ident)
  then show ?thesis
    by (simp only: strip_trailing_zeros_def rev_append)
qed

lemma digits_value_strip_trailing_zeros:
  "digits_value R i (strip_trailing_zeros ds) = digits_value R i ds"
proof -
  let ?zs = "rev (takeWhile (\<lambda>d. d = 0) (rev ds))"
  have "\<forall>d\<in>set ?zs. d = 0"
    by (auto dest: set_takeWhileD)
  then have "digits_value R (i + length (strip_trailing_zeros ds)) ?zs = 0"
    by (rule digits_value_zeros)
  moreover have "digits_value R i ds = digits_value R i (strip_trailing_zeros ds @ ?zs)"
    using strip_trailing_zeros_decomp [of ds] by simp
  ultimately show ?thesis
    by (simp add: digits_value_append)
qed

lemma set_strip_trailing_zeros: "set (strip_trailing_zeros ds) \<subseteq> set ds"
  by (auto simp: strip_trailing_zeros_def dest: set_dropWhileD)

lemma strip_trailing_zeros_id:
  "ds = [] \<or> last ds \<noteq> 0 \<Longrightarrow> strip_trailing_zeros ds = ds"
  by (cases ds rule: rev_cases) (simp_all add: strip_trailing_zeros_def)

lemma strip_eon_add_eon:
  "\<forall>d\<in>set ds. 0 \<le> d \<Longrightarrow> strip_eon (add_eon ds) = ds"
proof -
  assume "\<forall>d\<in>set ds. 0 \<le> d"
  then have "\<And>x. x \<in> set ds \<Longrightarrow> x \<noteq> EON"
    by (auto simp: EON_def)
  then show ?thesis
    by (simp add: strip_eon_def add_eon_def)
qed

lemma int_to_digits_nonpos: "n \<le> 0 \<or> D = 0 \<Longrightarrow> int_to_digits D n = []"
  by (simp add: int_to_digits.simps [of D n])

lemma int_to_digits_pos:
  "0 < n \<Longrightarrow> 0 < D \<Longrightarrow>
     int_to_digits D n = (n mod biguint_SHIFT D) # int_to_digits D (n div biguint_SHIFT D)"
  by (simp add: int_to_digits.simps [of D n])

lemma int_to_digits_range:
  "d \<in> set (int_to_digits D n) \<Longrightarrow> 0 \<le> d \<and> d < biguint_SHIFT D"
proof (induction D n rule: int_to_digits.induct)
  case (1 D n)
  show ?case
  proof (cases "n \<le> 0 \<or> D = 0")
    case True
    with "1.prems" show ?thesis by (simp add: int_to_digits_nonpos)
  next
    case False
    with "1.prems" have "d = n mod biguint_SHIFT D
        \<or> d \<in> set (int_to_digits D (n div biguint_SHIFT D))"
      by (simp add: int_to_digits_pos)
    then show ?thesis
    proof
      assume "d = n mod biguint_SHIFT D"
      then show ?thesis using biguint_SHIFT_pos [of D] by simp
    next
      assume "d \<in> set (int_to_digits D (n div biguint_SHIFT D))"
      with False "1.IH" show ?thesis by simp
    qed
  qed
qed

lemma digits_value_int_to_digits:
  "0 < D \<Longrightarrow> 0 \<le> n \<Longrightarrow> digits_value (biguint_SHIFT D) 0 (int_to_digits D n) = n"
proof (induction D n rule: int_to_digits.induct)
  case (1 D n)
  show ?case
  proof (cases "n \<le> 0")
    case True
    with "1.prems" show ?thesis by (simp add: int_to_digits_nonpos)
  next
    case False
    with "1.prems" have "0 \<le> n div biguint_SHIFT D"
      using biguint_SHIFT_pos [of D] by (simp add: pos_imp_zdiv_nonneg_iff)
    with False "1.prems" "1.IH"
    have "digits_value (biguint_SHIFT D) 0 (int_to_digits D (n div biguint_SHIFT D))
        = n div biguint_SHIFT D"
      by simp
    with False "1.prems" show ?thesis
      by (simp add: int_to_digits_pos digits_value_Suc)
  qed
qed

lemma num_to_int_int_to_num:
  assumes "0 < D" and "0 \<le> n"
  shows "num_to_int D (int_to_num D n) = n"
proof -
  let ?ds = "strip_trailing_zeros (int_to_digits D n)"
  have "\<forall>d\<in>set ?ds. 0 \<le> d"
    using set_strip_trailing_zeros [of "int_to_digits D n"] int_to_digits_range [of _ D n]
    by blast
  then have "strip_eon (add_eon ?ds) = ?ds"
    by (rule strip_eon_add_eon)
  then show ?thesis
    using assms
    by (simp add: num_to_int_def int_to_num_def digits_value_strip_trailing_zeros
        digits_value_int_to_digits)
qed

lemma digits_value_pos:
  "0 < R \<Longrightarrow> \<forall>d\<in>set ds. 0 \<le> d \<Longrightarrow> ds \<noteq> [] \<Longrightarrow> last ds \<noteq> 0
     \<Longrightarrow> 0 < digits_value R 0 ds"
proof (induction ds)
  case Nil
  then show ?case by simp
next
  case (Cons d ds)
  show ?case
  proof (cases "ds = []")
    case True
    with Cons.prems show ?thesis by simp
  next
    case False
    with Cons have "0 < digits_value R 0 ds" by simp
    with Cons.prems have "0 < R * digits_value R 0 ds" by simp
    moreover from Cons.prems have "0 \<le> d" by simp
    ultimately show ?thesis by (simp add: digits_value_Suc)
  qed
qed

lemma int_to_digits_digits_value:
  "0 < D \<Longrightarrow> \<forall>d\<in>set ds. 0 \<le> d \<and> d < biguint_SHIFT D \<Longrightarrow> ds = [] \<or> last ds \<noteq> 0
     \<Longrightarrow> int_to_digits D (digits_value (biguint_SHIFT D) 0 ds) = ds"
proof (induction ds)
  case Nil
  then show ?case by (simp add: int_to_digits_nonpos)
next
  case (Cons d ds)
  let ?R = "biguint_SHIFT D"
  let ?v = "digits_value ?R 0 ds"
  from Cons.prems have d: "0 \<le> d" "d < ?R" by simp_all
  from Cons.prems have tl: "ds = [] \<or> last ds \<noteq> 0" by (auto split: if_splits)
  from Cons.prems have rng: "\<forall>d\<in>set ds. 0 \<le> d \<and> d < ?R" by simp
  with Cons.IH [OF Cons.prems(1)] tl have IH: "int_to_digits D ?v = ds" by simp
  have "\<forall>d\<in>set (d # ds). 0 \<le> d" using Cons.prems by simp
  moreover have "last (d # ds) \<noteq> 0" using Cons.prems by simp
  ultimately have pos: "0 < digits_value ?R 0 (d # ds)"
    using digits_value_pos [of ?R "d # ds"] biguint_SHIFT_pos [of D] by simp
  have m: "(d + ?R * ?v) mod ?R = d" using d by simp
  have q: "(d + ?R * ?v) div ?R = ?v" using d by simp
  from pos have "\<not> (d + ?R * ?v \<le> 0 \<or> D = 0)"
    using Cons.prems(1) by (simp add: digits_value_Suc)
  then have "int_to_digits D (d + ?R * ?v) = d # int_to_digits D ?v"
    using m q Cons.prems(1) by (simp add: int_to_digits_pos)
  with IH show ?case by (simp add: digits_value_Suc)
qed

lemma is_num_decomp:
  assumes "is_num D a"
  obtains ds where "a = add_eon ds" and "\<forall>d\<in>set ds. 0 \<le> d \<and> d < biguint_SHIFT D"
    and "ds = [] \<or> last ds \<noteq> 0"
proof
  from assms have "a \<noteq> []" and "last a = EON" by (simp_all add: is_num_def)
  then show "a = add_eon (butlast a)"
    by (metis add_eon_def append_butlast_last_id)
  from assms show "\<forall>d\<in>set (butlast a). 0 \<le> d \<and> d < biguint_SHIFT D"
    by (simp add: is_num_def list_all_iff)
  from assms show "butlast a = [] \<or> last (butlast a) \<noteq> 0"
    by (simp add: is_num_def)
qed

lemma int_to_num_num_to_int:
  assumes "0 < D" and "is_num D a"
  shows "int_to_num D (num_to_int D a) = a"
proof -
  from assms(2) obtain ds where a: "a = add_eon ds"
    and rng: "\<forall>d\<in>set ds. 0 \<le> d \<and> d < biguint_SHIFT D"
    and can: "ds = [] \<or> last ds \<noteq> 0"
    by (rule is_num_decomp)
  from rng have "strip_eon (add_eon ds) = ds"
    by (simp add: strip_eon_add_eon)
  then have "num_to_int D a = digits_value (biguint_SHIFT D) 0 ds"
    by (simp add: num_to_int_def a)
  moreover have "int_to_digits D (digits_value (biguint_SHIFT D) 0 ds) = ds"
    using assms(1) rng can by (rule int_to_digits_digits_value)
  ultimately show ?thesis
    using can by (simp add: int_to_num_def a strip_trailing_zeros_id)
qed

lemma num_to_int_nonneg: "is_num D a \<Longrightarrow> 0 \<le> num_to_int D a"
proof -
  assume "is_num D a"
  then obtain ds where a: "a = add_eon ds"
    and rng: "\<forall>d\<in>set ds. 0 \<le> d \<and> d < biguint_SHIFT D"
    by (rule is_num_decomp)
  from rng have "strip_eon (add_eon ds) = ds"
    by (simp add: strip_eon_add_eon)
  moreover from rng have "0 \<le> digits_value (biguint_SHIFT D) 0 ds"
    using biguint_SHIFT_pos [of D] by (simp add: digits_value_nonneg)
  ultimately show ?thesis
    by (simp add: num_to_int_def a)
qed

lemma num_to_int_zero_iff:
  "is_num D a \<Longrightarrow> num_to_int D a = 0 \<longleftrightarrow> a = add_eon []"
proof -
  assume "is_num D a"
  then obtain ds where a: "a = add_eon ds"
    and rng: "\<forall>d\<in>set ds. 0 \<le> d \<and> d < biguint_SHIFT D"
    and can: "ds = [] \<or> last ds \<noteq> 0"
    by (rule is_num_decomp)
  from rng have s: "strip_eon (add_eon ds) = ds"
    by (simp add: strip_eon_add_eon)
  show ?thesis
  proof (cases "ds = []")
    case True
    with s show ?thesis by (simp add: num_to_int_def a)
  next
    case False
    with rng can have "0 < digits_value (biguint_SHIFT D) 0 ds"
      using digits_value_pos [of "biguint_SHIFT D" ds] biguint_SHIFT_pos [of D] by simp
    with s False show ?thesis by (simp add: num_to_int_def a add_eon_def)
  qed
qed

subsection \<open>Subtraction with borrow\<close>

lemma sub_digit_props:
  assumes "0 \<le> x" "x < R" "0 \<le> y" "y < R" "borrow = 0 \<or> borrow = 1"
    and "sub_digit R x y borrow = (d, borrow')"
  shows "d - borrow' * R = x - y - borrow" and "0 \<le> d" and "d < R"
    and "borrow' = 0 \<or> borrow' = 1"
  using assms by (auto simp: sub_digit_def Let_def split: if_splits)

lemma borrow_step:
  fixes d :: int
  assumes "d - b' * R = x - y - borrow" and "v' - out * p = vx - vy - b'"
  shows "(d + R * v') - out * (R * p) = (x + R * vx) - (y + R * vy) - borrow"
proof -
  from assms(2) have "R * (v' - out * p) = R * (vx - vy - b')"
    by simp
  with assms(1) show ?thesis
    by (simp add: algebra_simps)
qed

lemma sub_with_borrow_props:
  assumes "\<forall>d\<in>set xs. 0 \<le> d \<and> d < R" and "\<forall>d\<in>set ys. 0 \<le> d \<and> d < R"
    and "borrow = 0 \<or> borrow = 1" and "0 < R"
    and "sub_with_borrow R xs ys borrow = (ds, out)"
  shows "digits_value R 0 ds - out * R ^ length ds
           = digits_value R 0 xs - digits_value R 0 ys - borrow
         \<and> (\<forall>d\<in>set ds. 0 \<le> d \<and> d < R) \<and> (out = 0 \<or> out = 1)"
  using assms
proof (induction R xs ys borrow arbitrary: ds out rule: sub_with_borrow.induct)
  case (1 R borrow)
  then show ?case by simp
next
  case (2 R x xs borrow)
  obtain d b' where sd: "sub_digit R x 0 borrow = (d, b')"
    by (cases "sub_digit R x 0 borrow")
  obtain ds' out' where rec: "sub_with_borrow R xs [] b' = (ds', out')"
    by (cases "sub_with_borrow R xs [] b'")
  from "2.prems" sd rec have res: "ds = d # ds'" "out = out'" by simp_all
  from "2.prems" have x: "0 \<le> x" "x < R" and z: "(0::int) \<le> 0" "0 < R" by simp_all
  note d = sub_digit_props [OF x z "2.prems"(3) sd]
  from "2.prems"(1) have xs: "\<forall>d\<in>set xs. 0 \<le> d \<and> d < R" by simp
  note ih = "2.IH" [OF sd [symmetric] xs "2.prems"(2) d(4) "2.prems"(4) rec]
  from ih have eq: "digits_value R 0 ds' - out' * R ^ length ds'
      = digits_value R 0 xs - digits_value R 0 [] - b'" by (rule conjunct1)
  from borrow_step [OF d(1) eq] ih d(2,3) show ?case
    by (simp add: res digits_value_Suc)
next
  case (3 R y ys borrow)
  obtain d b' where sd: "sub_digit R 0 y borrow = (d, b')"
    by (cases "sub_digit R 0 y borrow")
  obtain ds' out' where rec: "sub_with_borrow R [] ys b' = (ds', out')"
    by (cases "sub_with_borrow R [] ys b'")
  from "3.prems" sd rec have res: "ds = d # ds'" "out = out'" by simp_all
  from "3.prems" have y: "0 \<le> y" "y < R" and z: "(0::int) \<le> 0" "0 < R" by simp_all
  note d = sub_digit_props [OF z y "3.prems"(3) sd]
  from "3.prems"(2) have ys: "\<forall>d\<in>set ys. 0 \<le> d \<and> d < R" by simp
  note ih = "3.IH" [OF sd [symmetric] "3.prems"(1) ys d(4) "3.prems"(4) rec]
  from ih have eq: "digits_value R 0 ds' - out' * R ^ length ds'
      = digits_value R 0 [] - digits_value R 0 ys - b'" by (rule conjunct1)
  from borrow_step [OF d(1) eq] ih d(2,3) show ?case
    by (simp add: res digits_value_Suc)
next
  case (4 R x xs y ys borrow)
  obtain d b' where sd: "sub_digit R x y borrow = (d, b')"
    by (cases "sub_digit R x y borrow")
  obtain ds' out' where rec: "sub_with_borrow R xs ys b' = (ds', out')"
    by (cases "sub_with_borrow R xs ys b'")
  from "4.prems" sd rec have res: "ds = d # ds'" "out = out'" by simp_all
  from "4.prems" have x: "0 \<le> x" "x < R" and y: "0 \<le> y" "y < R" by simp_all
  note d = sub_digit_props [OF x y "4.prems"(3) sd]
  from "4.prems"(1) have xs: "\<forall>d\<in>set xs. 0 \<le> d \<and> d < R" by simp
  from "4.prems"(2) have ys: "\<forall>d\<in>set ys. 0 \<le> d \<and> d < R" by simp
  note ih = "4.IH" [OF sd [symmetric] xs ys d(4) "4.prems"(4) rec]
  from ih have eq: "digits_value R 0 ds' - out' * R ^ length ds'
      = digits_value R 0 xs - digits_value R 0 ys - b'" by (rule conjunct1)
  from borrow_step [OF d(1) eq] ih d(2,3) show ?case
    by (simp add: res digits_value_Suc)
qed

lemma digits_value_less:
  "0 < R \<Longrightarrow> \<forall>d\<in>set ds. 0 \<le> d \<and> d < R \<Longrightarrow> digits_value R 0 ds < R ^ length ds"
proof (induction ds)
  case Nil
  then show ?case by simp
next
  case (Cons d ds)
  then have "digits_value R 0 ds + 1 \<le> R ^ length ds" by simp
  with Cons.prems(1) have "R * (digits_value R 0 ds + 1) \<le> R * R ^ length ds"
    by (simp only: mult_le_cancel_left_pos)
  moreover from Cons.prems have "d < R" by simp
  ultimately show ?case
    by (simp add: digits_value_Suc algebra_simps)
qed

lemma strip_trailing_zeros_last:
  "strip_trailing_zeros ds = [] \<or> last (strip_trailing_zeros ds) \<noteq> 0"
proof (cases "dropWhile (\<lambda>d. d = 0) (rev ds) = []")
  case True
  then show ?thesis by (simp add: strip_trailing_zeros_def)
next
  case False
  then have "hd (dropWhile (\<lambda>d. d = 0) (rev ds)) \<noteq> 0"
    by (rule hd_dropWhile)
  with False show ?thesis
    by (simp add: strip_trailing_zeros_def last_rev)
qed

lemma is_num_add_eon:
  "\<forall>d\<in>set ds. 0 \<le> d \<and> d < biguint_SHIFT D \<Longrightarrow> ds = [] \<or> last ds \<noteq> 0
     \<Longrightarrow> is_num D (add_eon ds)"
  by (simp add: is_num_def add_eon_def list_all_iff)

lemma is_num_strip_trailing_zeros:
  assumes "\<forall>d\<in>set ds. 0 \<le> d \<and> d < biguint_SHIFT D"
  shows "is_num D (add_eon (strip_trailing_zeros ds))"
proof (rule is_num_add_eon)
  show "\<forall>d\<in>set (strip_trailing_zeros ds). 0 \<le> d \<and> d < biguint_SHIFT D"
    using assms set_strip_trailing_zeros [of ds] by blast
  show "strip_trailing_zeros ds = [] \<or> last (strip_trailing_zeros ds) \<noteq> 0"
    by (rule strip_trailing_zeros_last)
qed

lemma num_to_int_strip_trailing_zeros:
  assumes "\<forall>d\<in>set ds. 0 \<le> d \<and> d < biguint_SHIFT D"
  shows "num_to_int D (add_eon (strip_trailing_zeros ds)) = digits_value (biguint_SHIFT D) 0 ds"
proof -
  have "\<forall>d\<in>set (strip_trailing_zeros ds). 0 \<le> d"
    using assms set_strip_trailing_zeros [of ds] by blast
  then have "strip_eon (add_eon (strip_trailing_zeros ds)) = strip_trailing_zeros ds"
    by (rule strip_eon_add_eon)
  then show ?thesis
    by (simp add: num_to_int_def digits_value_strip_trailing_zeros)
qed

lemma sub_with_borrow_sign:
  assumes xs: "\<forall>d\<in>set xs. 0 \<le> d \<and> d < R" and ys: "\<forall>d\<in>set ys. 0 \<le> d \<and> d < R"
    and R: "0 < R" and sub: "sub_with_borrow R xs ys 0 = (ds, out)"
  shows "(out = 0 \<longleftrightarrow> digits_value R 0 ys \<le> digits_value R 0 xs)
     \<and> (out = 0 \<longrightarrow> digits_value R 0 ds = digits_value R 0 xs - digits_value R 0 ys)
     \<and> (\<forall>d\<in>set ds. 0 \<le> d \<and> d < R)"
proof -
  have zero: "(0::int) = 0 \<or> (0::int) = 1" by simp
  note p = sub_with_borrow_props [OF xs ys zero R sub]
  from p have eq: "digits_value R 0 ds - out * R ^ length ds
      = digits_value R 0 xs - digits_value R 0 ys - 0" by (rule conjunct1)
  from p have rng: "\<forall>d\<in>set ds. 0 \<le> d \<and> d < R" and out: "out = 0 \<or> out = 1" by simp_all
  from rng R have lo: "0 \<le> digits_value R 0 ds"
    by (simp add: digits_value_nonneg)
  from R rng have hi: "digits_value R 0 ds < R ^ length ds"
    by (rule digits_value_less)
  from out show ?thesis
  proof
    assume "out = 0"
    with eq lo rng show ?thesis by simp
  next
    assume "out = 1"
    with eq hi rng show ?thesis by simp
  qed
qed

lemma num_sub_correct:
  assumes a: "is_num D a" and b: "is_num D b"
  shows "(num_to_int D b \<le> num_to_int D a \<longrightarrow>
            fst (num_sub D a b) = 1
            \<and> num_to_int D (snd (num_sub D a b)) = num_to_int D a - num_to_int D b)
       \<and> (num_to_int D a < num_to_int D b \<longrightarrow>
            fst (num_sub D a b) = - 1
            \<and> num_to_int D (snd (num_sub D a b)) = num_to_int D b - num_to_int D a)
       \<and> is_num D (snd (num_sub D a b))"
proof -
  let ?R = "biguint_SHIFT D"
  from a obtain xs where a_eq: "a = add_eon xs"
    and xs: "\<forall>d\<in>set xs. 0 \<le> d \<and> d < ?R"
    by (rule is_num_decomp)
  from b obtain ys where b_eq: "b = add_eon ys"
    and ys: "\<forall>d\<in>set ys. 0 \<le> d \<and> d < ?R"
    by (rule is_num_decomp)
  from xs have sa: "strip_eon a = xs" by (simp add: a_eq strip_eon_add_eon)
  from ys have sb: "strip_eon b = ys" by (simp add: b_eq strip_eon_add_eon)
  have A: "num_to_int D a = digits_value ?R 0 xs" by (simp add: num_to_int_def sa)
  have B: "num_to_int D b = digits_value ?R 0 ys" by (simp add: num_to_int_def sb)
  have R: "0 < ?R" by (rule biguint_SHIFT_pos)
  obtain ds out where s1: "sub_with_borrow ?R xs ys 0 = (ds, out)"
    by (cases "sub_with_borrow ?R xs ys 0")
  obtain ds2 out2 where s2: "sub_with_borrow ?R ys xs 0 = (ds2, out2)"
    by (cases "sub_with_borrow ?R ys xs 0")
  note p1 = sub_with_borrow_sign [OF xs ys R s1]
  note p2 = sub_with_borrow_sign [OF ys xs R s2]
  show ?thesis
  proof (cases "out = 0")
    case True
    then have r: "num_sub D a b = (1, add_eon (strip_trailing_zeros ds))"
      by (simp add: num_sub_def sa sb s1)
    from p1 have rng: "\<forall>d\<in>set ds. 0 \<le> d \<and> d < ?R" by simp
    from p1 True have le: "digits_value ?R 0 ys \<le> digits_value ?R 0 xs"
      and v: "digits_value ?R 0 ds = digits_value ?R 0 xs - digits_value ?R 0 ys"
      by simp_all
    from le v show ?thesis
      by (simp add: r A B num_to_int_strip_trailing_zeros [OF rng]
          is_num_strip_trailing_zeros [OF rng])
  next
    case False
    then have r: "num_sub D a b = (- 1, add_eon (strip_trailing_zeros ds2))"
      by (simp add: num_sub_def sa sb s1 s2)
    from p2 have rng: "\<forall>d\<in>set ds2. 0 \<le> d \<and> d < ?R" by simp
    from p1 False have lt: "digits_value ?R 0 xs < digits_value ?R 0 ys"
      by simp
    with p2 have v: "digits_value ?R 0 ds2 = digits_value ?R 0 ys - digits_value ?R 0 xs"
      by simp
    from lt v show ?thesis
      by (simp add: r A B num_to_int_strip_trailing_zeros [OF rng]
          is_num_strip_trailing_zeros [OF rng])
  qed
qed

text \<open>
  C8. On canonical magnitudes \<open>a\<close> and \<open>b\<close>, \<open>num_sub a b\<close> is a sign and a canonical
  magnitude: the sign +1 and the magnitude of \<open>a - b\<close> when \<open>a \<ge> b\<close> (so also when they are
  equal), the sign -1 and the magnitude of \<open>b - a\<close> when \<open>a < b\<close>. So \<open>test__utility_sub\<close>
  passes on every pair.
\<close>

theorem C8_num_sub_sign_and_magnitude:
  assumes "is_num D a" and "is_num D b"
  shows "(num_to_int D a \<ge> num_to_int D b \<longrightarrow>
            fst (num_sub D a b) = 1
            \<and> num_to_int D (snd (num_sub D a b)) = num_to_int D a - num_to_int D b)
       \<and> (num_to_int D a < num_to_int D b \<longrightarrow>
            fst (num_sub D a b) = - 1
            \<and> num_to_int D (snd (num_sub D a b)) = num_to_int D b - num_to_int D a)
       \<and> is_num D (snd (num_sub D a b))
       \<and> test__utility_sub D (BigUint a, BigUint b) = Inr ()"
proof -
  note c = num_sub_correct [OF assms]
  obtain s m where r: "num_sub D a b = (s, m)"
    by (cases "num_sub D a b")
  from c r have "test__utility_sub D (BigUint a, BigUint b) = Inr ()"
    by (simp add: test__utility_sub_def Let_def)
  with c show ?thesis by simp
qed

theorem C8_num_sub_sign_and_magnitude_witness:
  "is_num 4 [3, 1, - 1] \<and> is_num 4 [5, - 1]
   \<and> num_to_int 4 [3, 1, - 1] = 19 \<and> num_to_int 4 [5, - 1] = 5
   \<and> num_sub 4 [3, 1, - 1] [5, - 1] = (1, [14, - 1])
   \<and> num_sub 4 [5, - 1] [3, 1, - 1] = (- 1, [14, - 1])
   \<and> num_sub 4 [5, - 1] [5, - 1] = (1, [- 1])
   \<and> num_to_int 4 [14, - 1] = 14
   \<and> test__utility_sub 4 (BigUint [5, - 1], BigUint [3, 1, - 1]) = Inr ()"
  using C8_num_sub_sign_and_magnitude [of 4 "[5, - 1]" "[3, 1, - 1]"]
  by (simp add: is_num_def num_to_int_def num_sub_def biguint_SHIFT_def strip_eon_def EON_def
      sub_digit_def add_eon_def strip_trailing_zeros_def)

subsection \<open>Division\<close>

lemma int_divmod_unique:
  fixes a b q r :: int
  assumes "0 < b"
  shows "(q, r) = (a div b, a mod b) \<longleftrightarrow> a = b * q + r \<and> 0 \<le> r \<and> r < b"
proof
  assume "(q, r) = (a div b, a mod b)"
  with assms show "a = b * q + r \<and> 0 \<le> r \<and> r < b"
    by simp
next
  assume h: "a = b * q + r \<and> 0 \<le> r \<and> r < b"
  then have "a div b = q" by (intro int_div_pos_eq [of a b q r]) simp_all
  moreover from h have "a mod b = r" by (intro int_mod_pos_eq [of a b q r]) simp_all
  ultimately show "(q, r) = (a div b, a mod b)" by simp
qed

text \<open>
  C7. On canonical magnitudes \<open>a\<close> and \<open>b\<close>, \<open>test__div\<close> accepts a quotient and a
  remainder exactly when: both are 0, if \<open>a\<close> or \<open>b\<close> is 0; and otherwise
  \<open>a = b * quotient + remainder\<close> with \<open>0 \<le> remainder < b\<close>. In no case does the check
  divide by zero.
\<close>

theorem C7_div_expected:
  assumes "is_biguint D a_in" and "is_biguint D b_in"
  shows "(div_success_function D a_in b_in quotient_out remainder_out = Inr () \<longleftrightarrow>
           (let a = biguint_to_int D a_in; b = biguint_to_int D b_in;
                q = biguint_to_int D quotient_out; r = biguint_to_int D remainder_out
            in if a = 0 \<or> b = 0 then q = 0 \<and> r = 0
               else a = b * q + r \<and> 0 \<le> r \<and> r < b))
       \<and> div_success_function D a_in b_in quotient_out remainder_out \<noteq> Inl ZeroDivisionError"
proof -
  let ?a = "biguint_to_int D a_in" and ?b = "biguint_to_int D b_in"
  let ?q = "biguint_to_int D quotient_out" and ?r = "biguint_to_int D remainder_out"
  from assms(2) have b0: "0 \<le> ?b"
    by (simp add: is_biguint_def biguint_to_int_def num_to_int_nonneg)
  show ?thesis
  proof (cases "?a = 0 \<or> ?b = 0")
    case True
    then show ?thesis
      by (auto simp: div_success_function_def Let_def py_assert_def)
  next
    case False
    with b0 have bpos: "0 < ?b" by simp
    from False bpos have "div_success_function D a_in b_in quotient_out remainder_out
        = py_assert ((?q, ?r) = (?a div ?b, ?a mod ?b))"
      by (simp add: div_success_function_def Let_def py_divmod_def)
    with False int_divmod_unique [OF bpos, of ?q ?r ?a] show ?thesis
      by (simp add: Let_def py_assert_def)
  qed
qed

theorem C7_div_expected_witness:
  "is_biguint 4 (BigUint [3, 1, - 1]) \<and> is_biguint 4 (BigUint [5, - 1])
   \<and> is_biguint 4 (BigUint [- 1])
   \<and> div_success_function 4 (BigUint [3, 1, - 1]) (BigUint [5, - 1])
        (BigUint [3, - 1]) (BigUint [4, - 1]) = Inr ()
   \<and> div_success_function 4 (BigUint [3, 1, - 1]) (BigUint [- 1])
        (BigUint [- 1]) (BigUint [- 1]) = Inr ()
   \<and> div_success_function 4 (BigUint [3, 1, - 1]) (BigUint [- 1])
        (BigUint [3, - 1]) (BigUint [- 1]) = Inl AssertionError"
  using C7_div_expected [of 4 "BigUint [3, 1, - 1]" "BigUint [5, - 1]"
      "BigUint [3, - 1]" "BigUint [4, - 1]"]
    C7_div_expected [of 4 "BigUint [3, 1, - 1]" "BigUint [- 1]" "BigUint [- 1]" "BigUint [- 1]"]
  by (simp add: is_biguint_def is_num_def biguint_to_int_def num_to_int_def biguint_SHIFT_def
      strip_eon_def EON_def div_success_function_def py_assert_def)

subsection \<open>The round trips of the sign\<close>

text \<open>
  C6. For a positive bit length, \<open>bigint_to_int (int_to_bigint n) = n\<close> for every integer
  \<open>n\<close>, and \<open>int_to_bigint (bigint_to_int x) = x\<close> for every canonical \<open>x\<close> except the zero
  with the sign -1, which comes back as the zero with the sign +1.
\<close>

theorem C6_sign_round_trip:
  assumes "0 < D"
  shows "bigint_to_int D (int_to_bigint D n) = n
     \<and> (is_bigint D x \<longrightarrow>
          int_to_bigint D (bigint_to_int D x) =
            (if x = \<lparr>sign = - 1, ptr = add_eon []\<rparr> then \<lparr>sign = 1, ptr = add_eon []\<rparr>
             else x))"
proof
  show "bigint_to_int D (int_to_bigint D n) = n"
    using assms
    by (simp add: bigint_to_int_def int_to_bigint_def int_to_sign_and_abs_def
        int_to_signed_abs_def num_to_int_int_to_num)
  show "is_bigint D x \<longrightarrow>
          int_to_bigint D (bigint_to_int D x) =
            (if x = \<lparr>sign = - 1, ptr = add_eon []\<rparr> then \<lparr>sign = 1, ptr = add_eon []\<rparr>
             else x)"
  proof
    assume x: "is_bigint D x"
    then have num: "is_num D (ptr x)" and sg: "sign x = - 1 \<or> sign x = 1"
      by (simp_all add: is_bigint_def)
    let ?v = "num_to_int D (ptr x)"
    from num have v0: "0 \<le> ?v" by (rule num_to_int_nonneg)
    from num have z: "?v = 0 \<longleftrightarrow> ptr x = add_eon []" by (rule num_to_int_zero_iff)
    from assms num have rt: "int_to_num D ?v = ptr x" by (rule int_to_num_num_to_int)
    have xeq: "x = \<lparr>sign = sign x, ptr = ptr x\<rparr>" by simp
    from sg show "int_to_bigint D (bigint_to_int D x) =
            (if x = \<lparr>sign = - 1, ptr = add_eon []\<rparr> then \<lparr>sign = 1, ptr = add_eon []\<rparr>
             else x)"
    proof
      assume s: "sign x = 1"
      with v0 rt have "int_to_bigint D (bigint_to_int D x) = \<lparr>sign = 1, ptr = ptr x\<rparr>"
        by (simp add: bigint_to_int_def int_to_bigint_def int_to_sign_and_abs_def
            int_to_signed_abs_def)
      moreover from s have "x \<noteq> \<lparr>sign = - 1, ptr = add_eon []\<rparr>" by auto
      ultimately show ?thesis using s xeq by simp
    next
      assume s: "sign x = - 1"
      show ?thesis
      proof (cases "?v = 0")
        case True
        with z have p: "ptr x = add_eon []" by simp
        with s have "x = \<lparr>sign = - 1, ptr = add_eon []\<rparr>" by simp
        moreover from True s rt p
        have "int_to_bigint D (bigint_to_int D x) = \<lparr>sign = 1, ptr = add_eon []\<rparr>"
          by (simp add: bigint_to_int_def int_to_bigint_def int_to_sign_and_abs_def
              int_to_signed_abs_def)
        ultimately show ?thesis by simp
      next
        case False
        with v0 have pos: "0 < ?v" by simp
        with s rt have "int_to_bigint D (bigint_to_int D x) = \<lparr>sign = - 1, ptr = ptr x\<rparr>"
          by (simp add: bigint_to_int_def int_to_bigint_def int_to_sign_and_abs_def
              int_to_signed_abs_def)
        moreover from False z have "x \<noteq> \<lparr>sign = - 1, ptr = add_eon []\<rparr>" by auto
        ultimately show ?thesis using s xeq by simp
      qed
    qed
  qed
qed

theorem C6_sign_round_trip_witness:
  "(0::nat) < 4
   \<and> bigint_to_int 4 (int_to_bigint 4 (- 300)) = - 300
   \<and> int_to_bigint 4 (- 300) = \<lparr>sign = - 1, ptr = [12, 2, 1, - 1]\<rparr>
   \<and> is_bigint 4 \<lparr>sign = - 1, ptr = [12, 2, 1, - 1]\<rparr>
   \<and> int_to_bigint 4 (bigint_to_int 4 \<lparr>sign = - 1, ptr = [12, 2, 1, - 1]\<rparr>)
        = \<lparr>sign = - 1, ptr = [12, 2, 1, - 1]\<rparr>
   \<and> is_bigint 4 \<lparr>sign = - 1, ptr = [- 1]\<rparr>
   \<and> int_to_bigint 4 (bigint_to_int 4 \<lparr>sign = - 1, ptr = [- 1]\<rparr>) = \<lparr>sign = 1, ptr = [- 1]\<rparr>"
  using C6_sign_round_trip [of 4 "- 300" "\<lparr>sign = - 1, ptr = [12, 2, 1, - 1]\<rparr>"]
    C6_sign_round_trip [of 4 0 "\<lparr>sign = - 1, ptr = [- 1]\<rparr>"]
  by (simp add: is_bigint_def is_num_def bigint_to_int_def int_to_bigint_def
      int_to_sign_and_abs_def int_to_signed_abs_def int_to_num_def num_to_int_def
      biguint_SHIFT_def strip_eon_def EON_def add_eon_def strip_trailing_zeros_def
      int_to_digits.simps)

end
